theory Spec2Isabelle
  imports Complex_Main "HOL-Library.Log_Nat"
begin

section \<open>JavaScript numbers\<close>

text \<open>
  The form computes with JavaScript Number values: IEEE 754 binary64. A Number is either
  NaN or a sign together with a magnitude, and a magnitude is either infinite or a
  non-negative rational (every finite double is a dyadic rational). The sign is kept apart
  from the magnitude, so that \<open>+0\<close> and \<open>-0\<close> are different values, as they are in
  the language. \<open>Num True m\<close> is the negative number of magnitude \<open>m\<close>.
\<close>

datatype magnitude = Finite rat | Infinite

datatype number = NaN | Num bool magnitude

definition zero :: number where
  "zero = Num False (Finite 0)"

text \<open>Rounding to the nearest integer, ties to the even one.\<close>

definition round_even :: "rat \<Rightarrow> int" where
  "round_even x =
     (let f = \<lfloor>x\<rfloor>; r = x - of_int f
      in if r < 1 / 2 then f else if 1 / 2 < r then f + 1 else if even f then f else f + 1)"

text \<open>The binary exponent of a positive rational: \<open>2 ^ ilog2 q \<le> q < 2 ^ (ilog2 q + 1)\<close>.\<close>

definition ilog2 :: "rat \<Rightarrow> int" where
  "ilog2 q =
     (let (n, d) = quotient_of q; k = bitlen n - bitlen d
      in if power_int 2 k \<le> q then k else k - 1)"

text \<open>
  The Number value for a non-negative rational (ECMAScript 6.1.6.1): the nearest double,
  ties to the even significand. A double has 53 significant bits and its least exponent
  is \<open>-1074\<close>; a result that reaches \<open>2 ^ 1024\<close> is infinite.
\<close>

definition round_mag :: "rat \<Rightarrow> magnitude" where
  "round_mag q =
     (if q \<le> 0 then Finite 0
      else let e = max (ilog2 q - 52) (- 1074);
               v = of_int (round_even (q / power_int 2 e)) * power_int 2 e
           in if 2 ^ 1024 \<le> v then Infinite else Finite v)"

text \<open>\<open>isNaN\<close>, unary minus and division (ECMAScript Number::unaryMinus, Number::divide).\<close>

definition isNaN :: "number \<Rightarrow> bool" where
  "isNaN x = (x = NaN)"

fun js_neg :: "number \<Rightarrow> number" where
  "js_neg NaN = NaN"
| "js_neg (Num s m) = Num (\<not> s) m"

fun mag_div :: "magnitude \<Rightarrow> magnitude \<Rightarrow> magnitude option" where
  "mag_div Infinite Infinite = None"
| "mag_div Infinite (Finite b) = Some Infinite"
| "mag_div (Finite a) Infinite = Some (Finite 0)"
| "mag_div (Finite a) (Finite b) =
     (if b = 0 then (if a = 0 then None else Some Infinite) else Some (round_mag (a / b)))"

fun js_div :: "number \<Rightarrow> number \<Rightarrow> number" where
  "js_div NaN y = NaN"
| "js_div (Num s m) NaN = NaN"
| "js_div (Num s1 m1) (Num s2 m2) =
     (case mag_div m1 m2 of None \<Rightarrow> NaN | Some m \<Rightarrow> Num (s1 \<noteq> s2) m)"

text \<open>
  Comparison. A number that is not NaN has a place on the extended line: \<open>-1\<close>, \<open>0\<close> or
  \<open>1\<close> for minus infinity, finite and plus infinity, then the signed value. Both zeros
  have the same place. Every comparison with NaN is false.
\<close>

fun place :: "bool \<Rightarrow> magnitude \<Rightarrow> int \<times> rat" where
  "place s Infinite = (if s then - 1 else 1, 0)"
| "place s (Finite q) = (0, if s then - q else q)"

fun js_lt :: "number \<Rightarrow> number \<Rightarrow> bool" where
  "js_lt NaN y = False"
| "js_lt (Num s m) NaN = False"
| "js_lt (Num s1 m1) (Num s2 m2) =
     (fst (place s1 m1) < fst (place s2 m2) \<or>
      fst (place s1 m1) = fst (place s2 m2) \<and> snd (place s1 m1) < snd (place s2 m2))"

fun js_eq :: "number \<Rightarrow> number \<Rightarrow> bool" where
  "js_eq NaN y = False"
| "js_eq (Num s m) NaN = False"
| "js_eq (Num s1 m1) (Num s2 m2) = (place s1 m1 = place s2 m2)"

definition js_le :: "number \<Rightarrow> number \<Rightarrow> bool" where
  "js_le x y = (\<not> isNaN x \<and> \<not> isNaN y \<and> \<not> js_lt y x)"

definition js_gt :: "number \<Rightarrow> number \<Rightarrow> bool" where
  "js_gt x y = js_lt y x"

text \<open>
  \<open>Math.sign\<close>: NaN for NaN, the zero itself for a zero, otherwise one with the sign
  of the number.
\<close>

fun js_sign :: "number \<Rightarrow> number" where
  "js_sign NaN = NaN"
| "js_sign (Num s m) = (if m = Finite 0 then Num s (Finite 0) else Num s (Finite 1))"

text \<open>
  The magnitude of a finite number. The quotient of a positive number \<open>a\<close> by a positive
  number \<open>p\<close> is not zero and not NaN exactly when \<open>p\<close> is finite and either \<open>a\<close>
  is infinite or the exact quotient is above \<open>2 ^ - 1075\<close>, half the least positive
  double.
\<close>

fun finite_val :: "number \<Rightarrow> rat option" where
  "finite_val (Num s (Finite q)) = Some q"
| "finite_val x = None"

definition quotient_nonzero :: "number \<Rightarrow> number \<Rightarrow> bool" where
  "quotient_nonzero a p =
     (case finite_val p of
        None \<Rightarrow> False
      | Some y \<Rightarrow> (case finite_val a of None \<Rightarrow> True | Some x \<Rightarrow> 1 / 2 ^ 1075 < x / y))"

text \<open>
  A magnitude is not negative. Every number that \<open>parseFloat\<close> and the division
  produce is well formed.
\<close>

fun well_formed :: "number \<Rightarrow> bool" where
  "well_formed (Num s (Finite q)) = (0 \<le> q)"
| "well_formed x = True"

section \<open>parseFloat\<close>

text \<open>
  \<open>parseFloat\<close> (ECMAScript 19.2.4) drops leading white space, takes the longest prefix
  of the rest that is a \<open>StrDecimalLiteral\<close> and returns its Number value, or NaN when
  no prefix is one. Strings are lists of 8-bit characters here, so the white space and
  line terminators are the seven code units below \<open>256\<close> that the language counts as
  such. The value of the literal is rounded exactly, as the engines do (the standard
  allows an approximation past the twentieth significant digit).
\<close>

definition is_white_space :: "char \<Rightarrow> bool" where
  "is_white_space c = (of_char c \<in> set [9, 10, 11, 12, 13, 32, 160 :: nat])"

definition is_digit :: "char \<Rightarrow> bool" where
  "is_digit c = (48 \<le> (of_char c :: nat) \<and> (of_char c :: nat) \<le> 57)"

definition digits_val :: "string \<Rightarrow> int" where
  "digits_val ds = foldl (\<lambda>n c. 10 * n + (of_char c - 48)) 0 ds"

text \<open>\<open>SignedInteger\<close> after an exponent indicator; \<open>None\<close> when no digit follows.\<close>

definition signed_integer :: "string \<Rightarrow> int option" where
  "signed_integer s =
     (case s of
        [] \<Rightarrow> None
      | c # r \<Rightarrow>
          if c = CHR ''+'' then
            (if takeWhile is_digit r = [] then None else Some (digits_val (takeWhile is_digit r)))
          else if c = CHR ''-'' then
            (if takeWhile is_digit r = [] then None else Some (- digits_val (takeWhile is_digit r)))
          else
            (if takeWhile is_digit s = [] then None else Some (digits_val (takeWhile is_digit s))))"

text \<open>The exponent of the longest \<open>ExponentPart\<close> at the head of a string, \<open>0\<close> when there is none.\<close>

definition exponent_part :: "string \<Rightarrow> int" where
  "exponent_part s =
     (case s of
        [] \<Rightarrow> 0
      | c # r \<Rightarrow>
          if c = CHR ''e'' \<or> c = CHR ''E'' then (case signed_integer r of None \<Rightarrow> 0 | Some x \<Rightarrow> x)
          else 0)"

text \<open>The mathematical value of integer digits, fraction digits and an exponent.\<close>

definition mv :: "string \<Rightarrow> string \<Rightarrow> int \<Rightarrow> rat" where
  "mv ip fp x =
     (of_int (digits_val ip) + of_int (digits_val fp) / 10 ^ length fp) * power_int 10 x"

text \<open>\<open>StrUnsignedDecimalLiteral\<close>: \<open>None\<close> when no prefix of the string is one.\<close>

definition str_unsigned_decimal_literal :: "string \<Rightarrow> magnitude option" where
  "str_unsigned_decimal_literal s =
     (if take 8 s = ''Infinity'' then Some Infinite
      else
        let ip = takeWhile is_digit s; r = dropWhile is_digit s
        in case r of
             [] \<Rightarrow> if ip = [] then None else Some (round_mag (mv ip [] 0))
           | c # r' \<Rightarrow>
               if c = CHR ''.'' then
                 (let fp = takeWhile is_digit r'
                  in if ip = [] \<and> fp = [] then None
                     else Some (round_mag (mv ip fp (exponent_part (dropWhile is_digit r')))))
               else if ip = [] then None
               else Some (round_mag (mv ip [] (exponent_part r))))"

definition parseFloat :: "string \<Rightarrow> number" where
  "parseFloat inputString =
     (let trimmedString = dropWhile is_white_space inputString
      in case trimmedString of
           [] \<Rightarrow> NaN
         | c # r \<Rightarrow>
             if c = CHR ''-'' then
               (case str_unsigned_decimal_literal r of None \<Rightarrow> NaN | Some m \<Rightarrow> Num True m)
             else if c = CHR ''+'' then
               (case str_unsigned_decimal_literal r of None \<Rightarrow> NaN | Some m \<Rightarrow> Num False m)
             else
               (case str_unsigned_decimal_literal trimmedString of
                  None \<Rightarrow> NaN
                | Some m \<Rightarrow> Num False m))"

text \<open>
  Whether a string begins with a number as \<open>parseFloat\<close> sees it: after the leading
  white space and one optional sign comes \<open>Infinity\<close>, a digit, or a point followed by
  a digit.
\<close>

definition starts_unsigned :: "string \<Rightarrow> bool" where
  "starts_unsigned u =
     (take 8 u = ''Infinity'' \<or>
      (case u of
         [] \<Rightarrow> False
       | c # r \<Rightarrow>
           is_digit c \<or>
           c = CHR ''.'' \<and> (case r of [] \<Rightarrow> False | d # r' \<Rightarrow> is_digit d)))"

definition starts_number :: "string \<Rightarrow> bool" where
  "starts_number s =
     (case dropWhile is_white_space s of
        [] \<Rightarrow> False
      | c # r \<Rightarrow>
          if c = CHR ''-'' \<or> c = CHR ''+'' then starts_unsigned r else starts_unsigned (c # r))"

text \<open>
  The specification speaks of a string that parses as a decimal number. Read by its
  words, the whole string is a decimal number: an optional sign, digits with an optional
  fraction (or a fraction alone), and an optional exponent, with nothing after it.
\<close>

definition spec_decimal_number :: "string \<Rightarrow> bool" where
  "spec_decimal_number s =
     (let u = (case s of [] \<Rightarrow> [] | c # r \<Rightarrow> if c = CHR ''-'' \<or> c = CHR ''+'' then r else s);
          ip = takeWhile is_digit u;
          r = dropWhile is_digit u;
          fp = (case r of [] \<Rightarrow> [] | c # r' \<Rightarrow> if c = CHR ''.'' then takeWhile is_digit r' else []);
          rest = (case r of [] \<Rightarrow> [] | c # r' \<Rightarrow> if c = CHR ''.'' then dropWhile is_digit r' else r)
      in (ip \<noteq> [] \<or> fp \<noteq> []) \<and>
         (case rest of
            [] \<Rightarrow> True
          | e # x \<Rightarrow>
              (e = CHR ''e'' \<or> e = CHR ''E'') \<and>
              (case x of
                 [] \<Rightarrow> False
               | g # y \<Rightarrow>
                   if g = CHR ''+'' \<or> g = CHR ''-'' then y \<noteq> [] \<and> list_all is_digit y
                   else list_all is_digit x)))"

section \<open>The route guard\<close>

text \<open>
  \<open>PrivateRoute\<close> reads the authentication state and returns what it renders: the
  loading placeholder, the children, or a redirect to a path. The user is an object or
  \<open>null\<close>, and an object is always truthy.
\<close>

record 'u AuthState =
  user :: "'u option"
  loading :: bool

datatype 'c element = Div string | Children 'c | Navigate string

definition PrivateRoute :: "'c \<Rightarrow> 'u AuthState \<Rightarrow> 'c element" where
  "PrivateRoute children auth =
     (if loading auth then Div ''Loading...''
      else case user auth of Some u \<Rightarrow> Children children | None \<Rightarrow> Navigate ''/login'')"

section \<open>The investment form\<close>

datatype InvestmentType = deposit | withdrawal

record Investment =
  inv_id :: string
  inv_date :: string
  inv_amount :: number
  inv_ethPrice :: number
  inv_ethAmount :: number
  inv_type :: InvestmentType

text \<open>The state the component holds in its five \<open>useState\<close> hooks.\<close>

record FormState =
  date :: string
  amount :: string
  ethPrice :: string
  isLoading :: bool
  type :: InvestmentType

text \<open>
  The calls the component makes to its collaborators, in the order it makes them: the
  submit event, the notification service, the console, the parent's callback and the
  price service.
\<close>

datatype call =
    PreventDefault
  | ToastError string
  | ToastSuccess string
  | ConsoleError string
  | OnAddInvestment Investment
  | GetEthPrice

text \<open>The records passed to \<open>onAddInvestment\<close> among a list of calls, in order.\<close>

fun submitted :: "call list \<Rightarrow> Investment list" where
  "submitted [] = []"
| "submitted (OnAddInvestment d # cs) = d # submitted cs"
| "submitted (c # cs) = submitted cs"

text \<open>The messages of the error notifications among a list of calls, in order.\<close>

fun toast_errors :: "call list \<Rightarrow> string list" where
  "toast_errors [] = []"
| "toast_errors (ToastError m # cs) = m # toast_errors cs"
| "toast_errors (c # cs) = toast_errors cs"

text \<open>The messages of the success notifications among a list of calls, in order.\<close>

fun toast_successes :: "call list \<Rightarrow> string list" where
  "toast_successes [] = []"
| "toast_successes (ToastSuccess m # cs) = m # toast_successes cs"
| "toast_successes (c # cs) = toast_successes cs"

text \<open>
  \<open>fetchEthPrice\<close> is asynchronous. It runs up to the \<open>await\<close> when it is called: the
  loading flag is set and the price service is asked. It runs the rest when the service
  settles, on the state the form has by then. The service resolves with a price or
  rejects; \<open>toString\<close> is the conversion of the price to text. The notification may
  throw: the \<open>finally\<close> block runs all the same and the function then ends by throwing.
\<close>

datatype outcome = Resolved number | Rejected

datatype completion = Returned | Threw

definition fetchEthPrice_start :: "FormState \<Rightarrow> FormState \<times> call list" where
  "fetchEthPrice_start st = (st\<lparr>isLoading := True\<rparr>, [GetEthPrice])"

definition fetchEthPrice_settle ::
    "(number \<Rightarrow> string) \<Rightarrow> bool \<Rightarrow> outcome \<Rightarrow> FormState \<Rightarrow> FormState \<times> call list \<times> completion" where
  "fetchEthPrice_settle toString toast_throws res st =
     (case res of
        Resolved price \<Rightarrow> (st\<lparr>ethPrice := toString price, isLoading := False\<rparr>, [], Returned)
      | Rejected \<Rightarrow>
          (st\<lparr>isLoading := False\<rparr>,
           [ConsoleError ''Error fetching ETH price:'',
            ToastError ''Error getting ETH price. Enter it manually.''],
           if toast_throws then Threw else Returned))"

definition fetchEthPrice ::
    "(number \<Rightarrow> string) \<Rightarrow> bool \<Rightarrow> outcome \<Rightarrow> FormState \<Rightarrow> FormState \<times> call list \<times> completion" where
  "fetchEthPrice toString toast_throws res st =
     (let (st1, calls1) = fetchEthPrice_start st;
          (st2, calls2, c) = fetchEthPrice_settle toString toast_throws res st1
      in (st2, calls1 @ calls2, c))"

text \<open>
  \<open>handleSubmit\<close>, from the props (\<open>editingInvestment\<close>), the text that
  \<open>Math.random().toString(36).substring(2, 9)\<close> yields, and the state. It returns the
  state after the handler and the calls made. A string is falsy when it is empty, so the
  identifier of the edited record is taken when it is not empty.
\<close>

definition handleSubmit ::
    "Investment option \<Rightarrow> string \<Rightarrow> FormState \<Rightarrow> FormState \<times> call list" where
  "handleSubmit editingInvestment randomId st =
     (if date st = [] \<or> amount st = [] \<or> ethPrice st = [] then
        (st, [PreventDefault, ToastError ''Please complete all fields''])
      else
        let amountNumber = parseFloat (amount st);
            ethPriceNumber = parseFloat (ethPrice st)
        in if isNaN amountNumber \<or> isNaN ethPriceNumber then
             (st, [PreventDefault, ToastError ''Please enter valid numeric values''])
           else if js_le amountNumber zero \<or> js_le ethPriceNumber zero then
             (st, [PreventDefault, ToastError ''Values must be greater than zero''])
           else
             let finalAmount =
                   (if type st = withdrawal then js_neg amountNumber else amountNumber);
                 finalEthAmount =
                   (if type st = withdrawal then js_neg (js_div amountNumber ethPriceNumber)
                    else js_div amountNumber ethPriceNumber);
                 investmentData =
                   \<lparr>inv_id =
                      (case editingInvestment of
                         None \<Rightarrow> randomId
                       | Some e \<Rightarrow> if inv_id e = [] then randomId else inv_id e),
                    inv_date = date st,
                    inv_amount = finalAmount,
                    inv_ethPrice = ethPriceNumber,
                    inv_ethAmount = finalEthAmount,
                    inv_type = type st\<rparr>
             in case editingInvestment of
                  None \<Rightarrow>
                    (fst (fetchEthPrice_start (st\<lparr>amount := []\<rparr>)),
                     [PreventDefault, OnAddInvestment investmentData]
                       @ snd (fetchEthPrice_start (st\<lparr>amount := []\<rparr>))
                       @ [ToastSuccess ''Investment added''])
                | Some e \<Rightarrow>
                    (st, [PreventDefault, OnAddInvestment investmentData,
                          ToastSuccess ''Investment updated'']))"

section \<open>Facts about rounding\<close>

text \<open>
  Rounding to an integer fixes the integers, gives zero exactly on the closed interval
  from minus a half to a half, and does not go below an integer that the argument reaches.
\<close>

lemma round_even_of_int: "round_even (of_int n) = n"
  by (simp add: round_even_def)

lemma round_even_zero_iff: "round_even x = 0 \<longleftrightarrow> - (1 / 2) \<le> x \<and> x \<le> 1 / 2"
proof -
  define f where "f = \<lfloor>x\<rfloor>"
  have lo: "of_int f \<le> x" and hi: "x < of_int f + 1"
    unfolding f_def by linarith+
  have re: "round_even x =
      (if x - of_int f < 1 / 2 then f else if 1 / 2 < x - of_int f then f + 1
       else if even f then f else f + 1)"
    by (simp add: round_even_def f_def Let_def)
  show ?thesis
  proof
    assume z: "round_even x = 0"
    consider "f = 0" "x - of_int f \<le> 1 / 2" | "f = - 1" "1 / 2 \<le> x - of_int f"
      using z unfolding re by (auto split: if_splits simp: add_eq_0_iff)
    then show "- (1 / 2) \<le> x \<and> x \<le> 1 / 2"
      using lo hi by cases auto
  next
    assume b: "- (1 / 2) \<le> x \<and> x \<le> 1 / 2"
    have "of_int f < (1::rat)" using lo b by linarith
    then have f0: "f \<le> 0" by linarith
    have "(- 2 :: rat) < of_int f" using hi b by linarith
    then have f1: "- 1 \<le> f" by linarith
    from f0 f1 consider "f = 0" | "f = - 1" by linarith
    then show "round_even x = 0"
      using b unfolding re by cases auto
  qed
qed

lemma round_even_ge: "of_int n \<le> x \<Longrightarrow> n \<le> round_even x"
proof -
  assume "of_int n \<le> x"
  then have "n \<le> \<lfloor>x\<rfloor>" by (simp add: le_floor_iff)
  then show ?thesis by (simp add: round_even_def Let_def)
qed

lemma quotient_of_pos:
  "0 < q \<Longrightarrow> quotient_of q = (n, d) \<Longrightarrow> 0 < n \<and> 0 < d \<and> q = of_int n / of_int d"
  using quotient_of_div [of q n d] quotient_of_denom_pos [of q n d]
  by (auto simp: zero_less_divide_iff)

lemma bitlen_rat_bounds:
  assumes "0 < n"
  shows "power_int 2 (bitlen n - 1) \<le> (of_int n :: rat)" and "(of_int n :: rat) < power_int 2 (bitlen n)"
proof -
  have b1: "1 \<le> bitlen n"
    using assms bitlen_eq_zero_iff [of n] bitlen_nonneg [of n] by linarith
  have "2 ^ nat (bitlen n - 1) \<le> n" and "n < 2 ^ nat (bitlen n)"
    using bitlen_bounds [OF assms] by simp_all
  then have "(of_int (2 ^ nat (bitlen n - 1)) :: rat) \<le> of_int n"
    and "(of_int n :: rat) < of_int (2 ^ nat (bitlen n))"
    by (simp_all only: of_int_le_iff of_int_less_iff)
  then show "power_int 2 (bitlen n - 1) \<le> (of_int n :: rat)"
    and "(of_int n :: rat) < power_int 2 (bitlen n)"
    using b1 by (simp_all add: power_int_def)
qed

lemma ilog2_bounds:
  assumes "0 < q"
  shows "power_int 2 (ilog2 q) \<le> q" and "q < power_int 2 (ilog2 q + 1)"
proof -
  obtain n d where nd: "quotient_of q = (n, d)" by (cases "quotient_of q")
  from quotient_of_pos [OF assms nd] have n: "0 < n" and d: "0 < d" and q: "q = of_int n / of_int d"
    by simp_all
  define k where "k = bitlen n - bitlen d"
  have il: "ilog2 q = (if power_int 2 k \<le> q then k else k - 1)"
    by (simp add: ilog2_def nd k_def Let_def)
  have dpos: "(0::rat) < of_int d" using d by simp
  have "q * of_int d < power_int 2 (bitlen n)"
    using bitlen_rat_bounds(2) [OF n] q dpos by simp
  also have "power_int 2 (bitlen n) = power_int 2 (k + 1) * (power_int 2 (bitlen d - 1) :: rat)"
    by (simp add: k_def flip: power_int_add)
  also have "\<dots> \<le> power_int 2 (k + 1) * of_int d"
    using bitlen_rat_bounds(1) [OF d] by (intro mult_left_mono) simp_all
  finally have up: "q < power_int 2 (k + 1)"
    using dpos by simp
  have "power_int 2 (k - 1) * of_int d < power_int 2 (k - 1) * (power_int 2 (bitlen d) :: rat)"
    using bitlen_rat_bounds(2) [OF d] by (intro mult_strict_left_mono) simp_all
  also have "\<dots> = power_int 2 (bitlen n - 1)"
    by (simp add: k_def flip: power_int_add)
  also have "\<dots> \<le> q * of_int d"
    using bitlen_rat_bounds(1) [OF n] q dpos by simp
  finally have low: "power_int 2 (k - 1) < q"
    using dpos by simp
  show "power_int 2 (ilog2 q) \<le> q"
    using low by (simp add: il)
  show "q < power_int 2 (ilog2 q + 1)"
    using up by (simp add: il not_le)
qed

lemma ilog2_unique:
  assumes "0 < q" and "power_int 2 k \<le> q" and "q < power_int 2 (k + 1)"
  shows "ilog2 q = k"
proof -
  have "power_int (2::rat) k < power_int 2 (ilog2 q + 1)"
    using assms(2) ilog2_bounds(2) [OF assms(1)] by (rule le_less_trans)
  then have a: "k < ilog2 q + 1"
    using power_int_increasing [of "ilog2 q + 1" k "2::rat"] by (cases "k < ilog2 q + 1") auto
  have "power_int (2::rat) (ilog2 q) < power_int 2 (k + 1)"
    using ilog2_bounds(1) [OF assms(1)] assms(3) by (rule le_less_trans)
  then have b: "ilog2 q < k + 1"
    using power_int_increasing [of "k + 1" "ilog2 q" "2::rat"] by (cases "ilog2 q < k + 1") auto
  from a b show ?thesis by linarith
qed

lemma round_mag_at:
  assumes "0 < q" and "power_int 2 k \<le> q" and "q < power_int 2 (k + 1)"
  shows "round_mag q =
    (if 2 ^ 1024 \<le> of_int (round_even (q / power_int 2 (max (k - 52) (- 1074)))) *
          (power_int 2 (max (k - 52) (- 1074)) :: rat)
     then Infinite
     else Finite (of_int (round_even (q / power_int 2 (max (k - 52) (- 1074)))) *
          power_int 2 (max (k - 52) (- 1074))))"
  using assms(1) by (simp add: round_mag_def ilog2_unique [OF assms] Let_def)

lemma round_mag_of_int:
  assumes "0 \<le> n" and "n < 2 ^ 53"
  shows "round_mag (of_int n) = Finite (of_int n)"
proof (cases "n = 0")
  case True
  then show ?thesis by (simp add: round_mag_def)
next
  case False
  with assms have n: "0 < n" by simp
  define q :: rat where "q = of_int n"
  define k where "k = ilog2 q"
  have qpos: "0 < q" using n by (simp add: q_def)
  have lo: "power_int 2 k \<le> q" and hi: "q < power_int 2 (k + 1)"
    unfolding k_def using ilog2_bounds [OF qpos] by simp_all
  have "q < 2 ^ 53"
    using assms(2) unfolding q_def by (metis of_int_less_iff of_int_numeral of_int_power)
  then have "power_int (2::rat) k < power_int 2 53"
    using lo by simp
  then have k52: "k \<le> 52"
    using power_int_increasing [of 53 k "2::rat"] by (cases "k \<le> 52") auto
  have "(1::rat) \<le> q" using n unfolding q_def by (metis of_int_1 of_int_le_iff zle_diff1_eq diff_zero zless_imp_add1_zle add_0)
  then have "power_int (2::rat) 0 < power_int 2 (k + 1)"
    using hi by simp
  then have k0: "0 \<le> k"
    using power_int_increasing [of "k + 1" 0 "2::rat"] by (cases "0 \<le> k") auto
  have e: "max (k - 52) (- 1074) = k - 52" using k0 by simp
  have p: "power_int (2::rat) (k - 52) = 1 / 2 ^ nat (52 - k)"
    using k52 power_int_minus_divide [of "2::rat" "52 - k"] by (simp add: power_int_def)
  have m: "q / power_int 2 (k - 52) = of_int (n * 2 ^ nat (52 - k))"
    by (simp add: p q_def)
  have v: "of_int (round_even (q / power_int 2 (k - 52))) * power_int 2 (k - 52) = q"
    unfolding m round_even_of_int by (simp add: p q_def)
  have "\<not> 2 ^ 1024 \<le> q" using \<open>q < 2 ^ 53\<close> by simp
  then show ?thesis
    using round_mag_at [OF qpos lo hi] unfolding e v by (simp add: q_def)
qed

lemma round_mag_cases:
  assumes "0 < q"
  shows "(q \<le> 1 / 2 ^ 1075 \<longrightarrow> round_mag q = Finite 0) \<and>
    (1 / 2 ^ 1075 < q \<longrightarrow> round_mag q = Infinite \<or> (\<exists>v. 0 < v \<and> round_mag q = Finite v))"
proof -
  define k where "k = ilog2 q"
  define e where "e = max (k - 52) (- 1074)"
  define m where "m = round_even (q / power_int 2 e)"
  have lo: "power_int 2 k \<le> q" and hi: "q < power_int 2 (k + 1)"
    unfolding k_def using ilog2_bounds [OF assms] by simp_all
  have rm: "round_mag q =
      (if 2 ^ 1024 \<le> of_int m * (power_int 2 e :: rat) then Infinite
       else Finite (of_int m * power_int 2 e))"
    using round_mag_at [OF assms lo hi] by (simp add: m_def e_def)
  have pe: "(0::rat) < power_int 2 e" by simp
  have xpos: "0 \<le> q / power_int 2 e" using assms pe by simp
  have mpos: "0 \<le> m"
    unfolding m_def using round_even_ge [of 0 "q / power_int 2 e"] xpos by simp
  have m0: "m = 0 \<longleftrightarrow> q / power_int 2 e \<le> 1 / 2"
    unfolding m_def round_even_zero_iff using xpos by auto
  have z: "m = 0 \<longleftrightarrow> q \<le> 1 / 2 ^ 1075"
  proof (cases "- 1074 \<le> k - 52")
    case True
    then have ee: "e = k - 52" by (simp add: e_def)
    have "power_int 2 (k - 52) * (2 ^ 52 :: rat) = power_int 2 k"
      using power_int_add [of "2::rat" "k - 52" 52] by simp
    then have "(2 ^ 52 :: rat) \<le> q / power_int 2 e"
      using lo pe by (simp add: ee pos_le_divide_eq mult.commute)
    moreover have "(1 / 2 :: rat) < 2 ^ 52" by simp
    ultimately have a: "\<not> q / power_int 2 e \<le> 1 / 2" by (meson less_le_trans not_le)
    have "power_int (2::rat) (- 1022) \<le> power_int 2 k"
      using True by (intro power_int_increasing) simp_all
    then have "power_int (2::rat) (- 1022) \<le> q" using lo by simp
    moreover have "(1 / 2 ^ 1075 :: rat) < power_int 2 (- 1022)"
      by (simp add: power_int_minus_divide)
    ultimately have b: "\<not> q \<le> 1 / 2 ^ 1075" by simp
    show ?thesis using a b m0 by simp
  next
    case False
    then have ee: "e = - 1074" by (simp add: e_def)
    have pe': "power_int (2::rat) e = 1 / 2 ^ 1074"
      by (simp add: ee power_int_minus_divide)
    have c: "(2::rat) ^ 1075 = 2 ^ 1074 * 2" by simp
    have h: "(q / (1 / c) \<le> 1 / 2) = (q \<le> 1 / (c * 2))" if "0 < c" for c :: rat
      using that by (simp add: field_simps)
    have "(0::rat) < 2 ^ 1074" by simp
    from h [OF this] show ?thesis unfolding m0 pe' c .
  qed
  show ?thesis
  proof (intro conjI impI)
    assume "q \<le> 1 / 2 ^ 1075"
    then have "m = 0" using z by simp
    then show "round_mag q = Finite 0" by (simp add: rm)
  next
    assume "1 / 2 ^ 1075 < q"
    then have "m \<noteq> 0" using z by simp
    then have "0 < m" using mpos by simp
    then have "0 < of_int m * (power_int 2 e :: rat)" by simp
    then show "round_mag q = Infinite \<or> (\<exists>v. 0 < v \<and> round_mag q = Finite v)"
      by (simp add: rm)
  qed
qed

lemma round_mag_underflow: "q \<le> 1 / 2 ^ 1075 \<Longrightarrow> round_mag q = Finite 0"
  using round_mag_cases [of q] by (cases "0 < q") (simp_all add: round_mag_def)

lemma round_mag_nonneg: "round_mag q = Finite v \<Longrightarrow> 0 \<le> v"
  using round_mag_cases [of q] by (cases "0 < q"; cases "q \<le> 1 / 2 ^ 1075") (auto simp: round_mag_def)

lemma round_even_eqI:
  assumes "of_int m - 1 / 2 < x" and "x < of_int m + 1 / 2"
  shows "round_even x = m"
proof (cases "x < of_int m")
  case True
  have "\<lfloor>x\<rfloor> = m - 1"
    using True assms by (intro floor_unique) simp_all
  then show ?thesis
    using assms by (simp add: round_even_def Let_def)
next
  case False
  have "\<lfloor>x\<rfloor> = m"
    using False assms by (intro floor_unique) simp_all
  then show ?thesis
    using assms by (simp add: round_even_def Let_def)
qed

section \<open>Facts about numbers and parsing\<close>

lemma str_unsigned_decimal_literal_nonneg:
  "str_unsigned_decimal_literal s = Some (Finite v) \<Longrightarrow> 0 \<le> v"
  by (auto simp: str_unsigned_decimal_literal_def Let_def round_mag_nonneg
      split: if_splits list.splits)

lemma parseFloat_well_formed: "well_formed (parseFloat s)"
proof (cases "parseFloat s")
  case NaN
  then show ?thesis by simp
next
  case (Num sg m)
  show ?thesis
  proof (cases m)
    case Infinite
    with Num show ?thesis by simp
  next
    case (Finite v)
    with Num obtain t where "str_unsigned_decimal_literal t = Some (Finite v)"
      by (auto simp: parseFloat_def Let_def split: list.splits if_splits option.splits)
    then have "0 \<le> v" by (rule str_unsigned_decimal_literal_nonneg)
    with Num Finite show ?thesis by simp
  qed
qed

lemma js_gt_zero_iff:
  assumes "well_formed a"
  shows "js_gt a zero \<longleftrightarrow> a = Num False Infinite \<or> (\<exists>q. 0 < q \<and> a = Num False (Finite q))"
proof (cases a)
  case NaN
  then show ?thesis by (simp add: js_gt_def zero_def)
next
  case (Num s m)
  then show ?thesis using assms by (cases m; cases s) (auto simp: js_gt_def zero_def)
qed

lemma js_lt_neg_zero: "js_lt (js_neg a) zero \<longleftrightarrow> js_gt a zero"
proof (cases a)
  case NaN
  then show ?thesis by (simp add: js_gt_def zero_def)
next
  case (Num s m)
  then show ?thesis by (cases m; cases s) (auto simp: js_gt_def zero_def)
qed

lemma js_gt_neg_zero: "js_gt (js_neg a) zero \<longleftrightarrow> js_lt a zero"
proof (cases a)
  case NaN
  then show ?thesis by (simp add: js_gt_def zero_def)
next
  case (Num s m)
  then show ?thesis by (cases m; cases s) (auto simp: js_gt_def zero_def)
qed

lemma js_div_neg_left: "js_div (js_neg a) p = js_neg (js_div a p)"
  by (cases a; cases p) (auto split: option.splits)

lemma js_le_zero_iff: "js_le a zero \<longleftrightarrow> \<not> isNaN a \<and> \<not> js_gt a zero"
  by (simp add: js_le_def js_gt_def isNaN_def zero_def)

lemma js_gt_zero_not_NaN: "js_gt a zero \<Longrightarrow> \<not> isNaN a"
  by (cases a) (simp_all add: js_gt_def isNaN_def zero_def)

lemma parseFloat_not_NaN_nonempty: "\<not> isNaN (parseFloat s) \<Longrightarrow> s \<noteq> []"
  by (auto simp: parseFloat_def isNaN_def)

text \<open>
  The quotient of two positive numbers is never negative; it is positive exactly when it
  neither underflows to zero nor is NaN.
\<close>

lemma js_div_positive:
  assumes "well_formed a" and "well_formed p" and "js_gt a zero" and "js_gt p zero"
  shows "(js_gt (js_div a p) zero \<longleftrightarrow> quotient_nonzero a p) \<and>
    \<not> js_lt (js_div a p) zero \<and>
    (quotient_nonzero a p \<or> isNaN (js_div a p) \<or> js_div a p = zero)"
proof -
  from assms(1,3) consider "a = Num False Infinite" | x where "0 < x" "a = Num False (Finite x)"
    using js_gt_zero_iff by blast
  then show ?thesis
  proof cases
    case 1
    from assms(2,4) consider "p = Num False Infinite" | y where "0 < y" "p = Num False (Finite y)"
      using js_gt_zero_iff by blast
    then show ?thesis
      using 1 by cases (auto simp: quotient_nonzero_def js_gt_def zero_def isNaN_def)
  next
    case 2
    from assms(2,4) consider "p = Num False Infinite" | y where "0 < y" "p = Num False (Finite y)"
      using js_gt_zero_iff by blast
    then show ?thesis
    proof cases
      case 1
      with 2 show ?thesis by (auto simp: quotient_nonzero_def js_gt_def zero_def isNaN_def)
    next
      case y: 2
      have qpos: "0 < x / y" using 2 y by simp
      show ?thesis
      proof (cases "x / y \<le> 1 / 2 ^ 1075")
        case True
        then have "round_mag (x / y) = Finite 0" by (rule round_mag_underflow)
        with True 2 y show ?thesis
          by (simp add: quotient_nonzero_def js_gt_def zero_def isNaN_def)
      next
        case False
        then have big: "1 / 2 ^ 1075 < x / y" by simp
        with round_mag_cases [OF qpos]
        consider "round_mag (x / y) = Infinite" | v where "0 < v" "round_mag (x / y) = Finite v"
          by blast
        then show ?thesis
          using big 2 y by cases (simp_all add: quotient_nonzero_def js_gt_def zero_def isNaN_def)
      qed
    qed
  qed
qed

lemma mag_div_nonneg: "mag_div m1 m2 = Some (Finite v) \<Longrightarrow> 0 \<le> v"
  by (cases m1; cases m2) (auto split: if_splits dest: round_mag_nonneg)

lemma js_div_well_formed: "well_formed (js_div a p)"
proof (cases "js_div a p")
  case NaN
  then show ?thesis by simp
next
  case (Num s m)
  show ?thesis
  proof (cases m)
    case Infinite
    with Num show ?thesis by simp
  next
    case (Finite v)
    with Num obtain m1 m2 where "mag_div m1 m2 = Some (Finite v)"
      by (cases a; cases p) (auto split: option.splits)
    then have "0 \<le> v" by (rule mag_div_nonneg)
    with Num Finite show ?thesis by simp
  qed
qed

lemma js_sign_positive_iff:
  assumes "well_formed x"
  shows "js_sign x = Num False (Finite 1) \<longleftrightarrow> js_gt x zero"
proof (cases x)
  case NaN
  then show ?thesis by (simp add: js_gt_def zero_def)
next
  case (Num s m)
  then show ?thesis using assms by (cases m; cases s) (auto simp: js_gt_def zero_def)
qed

lemma js_sign_neg: "js_sign (js_neg x) = js_neg (js_sign x)"
  by (cases x) simp_all

lemma js_neg_eq_iff: "js_neg x = js_neg y \<longleftrightarrow> x = y"
  by (cases x; cases y) auto

lemma finite_val_neg: "finite_val (js_neg x) = finite_val x"
proof (cases x)
  case NaN
  then show ?thesis by simp
next
  case (Num s m)
  then show ?thesis by (cases m) simp_all
qed

lemma js_eq_self: "js_eq x x \<longleftrightarrow> \<not> isNaN x"
  by (cases x) (simp_all add: isNaN_def)

lemma isNaN_neg: "isNaN (js_neg x) \<longleftrightarrow> isNaN x"
  by (cases x) (simp_all add: isNaN_def)

lemma js_div_NaN_iff:
  assumes "well_formed a" and "well_formed p" and "js_gt a zero" and "js_gt p zero"
  shows "isNaN (js_div a p) \<longleftrightarrow> finite_val a = None \<and> finite_val p = None"
proof -
  from assms(1,3) consider "a = Num False Infinite" | x where "0 < x" "a = Num False (Finite x)"
    using js_gt_zero_iff by blast
  then show ?thesis
  proof cases
    case 1
    from assms(2,4) consider "p = Num False Infinite" | y where "0 < y" "p = Num False (Finite y)"
      using js_gt_zero_iff by blast
    then show ?thesis using 1 by cases (auto simp: isNaN_def)
  next
    case 2
    from assms(2,4) consider "p = Num False Infinite" | y where "0 < y" "p = Num False (Finite y)"
      using js_gt_zero_iff by blast
    then show ?thesis using 2 by cases (auto simp: isNaN_def)
  qed
qed

lemma round_mag_numeral:
  "(numeral w :: int) < 2 ^ 53 \<Longrightarrow> round_mag (numeral w) = Finite (numeral w)"
  using round_mag_of_int [of "numeral w"] by simp

lemma round_mag_0: "round_mag 0 = Finite 0"
  by (simp add: round_mag_def)

lemma round_mag_1: "round_mag 1 = Finite 1"
  using round_mag_of_int [of 1] by simp

text \<open>The rules that evaluate \<open>parseFloat\<close> on a given string of few digits.\<close>

lemmas parseFloat_eval = parseFloat_def str_unsigned_decimal_literal_def is_white_space_def
  is_digit_def digits_val_def mv_def exponent_part_def signed_integer_def round_mag_numeral
  round_mag_0 round_mag_1 Let_def

lemma parseFloat_white_space:
  assumes "list_all is_white_space s"
  shows "parseFloat s = NaN"
proof -
  have h: "dropWhile is_white_space s = []"
    using assms by (simp add: dropWhile_eq_Nil_conv list_all_iff)
  show ?thesis unfolding parseFloat_def h by simp
qed

lemma parseFloat_500: "parseFloat ''500'' = Num False (Finite 500)"
  by (simp add: parseFloat_eval)

lemma parseFloat_2000: "parseFloat ''2000'' = Num False (Finite 2000)"
  by (simp add: parseFloat_eval)

lemma round_mag_quarter: "round_mag (1 / 4) = Finite (1 / 4)"
proof -
  have "round_mag (1 / 4) =
    (if 2 ^ 1024 \<le> of_int (round_even ((1 / 4) / power_int 2 (max (- 2 - 52) (- 1074)))) *
          (power_int 2 (max (- 2 - 52) (- 1074)) :: rat)
     then Infinite
     else Finite (of_int (round_even ((1 / 4) / power_int 2 (max (- 2 - 52) (- 1074)))) *
          power_int 2 (max (- 2 - 52) (- 1074))))"
    by (rule round_mag_at) (simp_all add: power_int_minus_divide)
  moreover have "(1 / 4) / power_int 2 (max (- 2 - 52) (- 1074)) = (of_int (2 ^ 52) :: rat)"
    by (simp add: power_int_minus_divide)
  ultimately show ?thesis
    by (simp only: round_even_of_int) (simp add: power_int_minus_divide)
qed

text \<open>\<open>parseFloat\<close> gives NaN exactly on the strings that do not begin with a number.\<close>

lemma is_digit_dot: "\<not> is_digit CHR ''.''"
  by (simp add: is_digit_def)

lemma str_unsigned_decimal_literal_None_iff:
  "str_unsigned_decimal_literal u = None \<longleftrightarrow> \<not> starts_unsigned u"
proof (cases u)
  case Nil
  then show ?thesis by (simp add: str_unsigned_decimal_literal_def starts_unsigned_def)
next
  case (Cons c r)
  show ?thesis
  proof (cases "take 8 u = ''Infinity''")
    case True
    then show ?thesis by (simp add: str_unsigned_decimal_literal_def starts_unsigned_def)
  next
    case inf: False
    show ?thesis
    proof (cases "is_digit c")
      case True
      then show ?thesis
        using Cons inf
        by (auto simp: str_unsigned_decimal_literal_def starts_unsigned_def Let_def
            split: list.splits)
    next
      case False
      then show ?thesis
        using Cons inf
        by (cases r)
          (auto simp: str_unsigned_decimal_literal_def starts_unsigned_def Let_def is_digit_dot)
    qed
  qed
qed

lemma parseFloat_NaN_iff: "isNaN (parseFloat s) \<longleftrightarrow> \<not> starts_number s"
proof (cases "dropWhile is_white_space s")
  case Nil
  show ?thesis unfolding parseFloat_def starts_number_def isNaN_def Nil by simp
next
  case (Cons c r)
  have n: "(case x of None \<Rightarrow> NaN | Some m \<Rightarrow> Num b m) = NaN \<longleftrightarrow> x = None" for x b
    by (cases x) simp_all
  show ?thesis
    using Cons
    by (simp add: parseFloat_def starts_number_def isNaN_def n
        str_unsigned_decimal_literal_None_iff)
qed

lemma parseFloat_12abc: "parseFloat ''12abc'' = Num False (Finite 12)"
  by (simp add: parseFloat_eval)

lemma parseFloat_3: "parseFloat ''3'' = Num False (Finite 3)"
  by (simp add: parseFloat_eval)

section \<open>Facts about the submit handler\<close>

text \<open>What the handler does once the three checks have passed.\<close>

lemma handleSubmit_valid:
  assumes "date st \<noteq> []"
    and "js_gt (parseFloat (amount st)) zero" and "js_gt (parseFloat (ethPrice st)) zero"
  shows "handleSubmit e r st =
    (case e of None \<Rightarrow> st\<lparr>amount := [], isLoading := True\<rparr> | Some x \<Rightarrow> st,
     [PreventDefault,
      OnAddInvestment
        \<lparr>inv_id = (case e of None \<Rightarrow> r | Some x \<Rightarrow> if inv_id x = [] then r else inv_id x),
         inv_date = date st,
         inv_amount =
           (if type st = withdrawal then js_neg (parseFloat (amount st))
            else parseFloat (amount st)),
         inv_ethPrice = parseFloat (ethPrice st),
         inv_ethAmount =
           (if type st = withdrawal
            then js_neg (js_div (parseFloat (amount st)) (parseFloat (ethPrice st)))
            else js_div (parseFloat (amount st)) (parseFloat (ethPrice st))),
         inv_type = type st\<rparr>]
     @ (case e of None \<Rightarrow> [GetEthPrice, ToastSuccess ''Investment added'']
        | Some x \<Rightarrow> [ToastSuccess ''Investment updated'']))"
proof -
  have n: "\<not> isNaN (parseFloat (amount st))" "\<not> isNaN (parseFloat (ethPrice st))"
    using assms(2,3) by (simp_all add: js_gt_zero_not_NaN)
  then have ne: "amount st \<noteq> []" "ethPrice st \<noteq> []"
    by (simp_all add: parseFloat_not_NaN_nonempty)
  have le: "\<not> js_le (parseFloat (amount st)) zero" "\<not> js_le (parseFloat (ethPrice st)) zero"
    using assms(2,3) by (simp_all add: js_le_zero_iff)
  show ?thesis
    using assms(1) n ne le
    by (cases e) (simp_all add: handleSubmit_def Let_def fetchEthPrice_start_def)
qed

lemma handleSubmit_submitted:
  assumes "OnAddInvestment d \<in> set (snd (handleSubmit e r st))"
  shows "date st \<noteq> [] \<and> js_gt (parseFloat (amount st)) zero \<and>
    js_gt (parseFloat (ethPrice st)) zero"
proof -
  have a: "date st \<noteq> [] \<and> amount st \<noteq> [] \<and> ethPrice st \<noteq> []"
    using assms by (auto simp: handleSubmit_def)
  then have b: "\<not> isNaN (parseFloat (amount st)) \<and> \<not> isNaN (parseFloat (ethPrice st))"
    using assms by (auto simp: handleSubmit_def Let_def)
  then have "\<not> js_le (parseFloat (amount st)) zero \<and> \<not> js_le (parseFloat (ethPrice st)) zero"
    using assms a by (auto simp: handleSubmit_def Let_def)
  then show ?thesis using a b by (simp add: js_le_zero_iff)
qed

text \<open>The least positive double, and its quotient by four, which is zero.\<close>

lemma parseFloat_4: "parseFloat ''4'' = Num False (Finite 4)"
  by (simp add: parseFloat_eval)

lemma parseFloat_least: "parseFloat ''5e-324'' = Num False (Finite (1 / 2 ^ 1074))"
proof -
  define q :: rat where "q = 5 / 10 ^ 324"
  have p: "parseFloat ''5e-324'' = Num False (round_mag q)"
    by (simp add: parseFloat_def str_unsigned_decimal_literal_def is_white_space_def
        is_digit_def digits_val_def mv_def exponent_part_def signed_integer_def Let_def
        power_int_minus_divide q_def)
  have e: "max (- 1074 - 52) (- 1074) = (- 1074 :: int)" by simp
  have x: "round_even (q / power_int 2 (- 1074)) = 1"
    by (rule round_even_eqI) (simp_all add: q_def power_int_minus_divide)
  have "round_mag q =
    (if 2 ^ 1024 \<le> of_int (round_even (q / power_int 2 (max (- 1074 - 52) (- 1074)))) *
          (power_int 2 (max (- 1074 - 52) (- 1074)) :: rat)
     then Infinite
     else Finite (of_int (round_even (q / power_int 2 (max (- 1074 - 52) (- 1074)))) *
          power_int 2 (max (- 1074 - 52) (- 1074))))"
    by (rule round_mag_at) (simp_all add: q_def power_int_minus_divide)
  then have "round_mag q = Finite (1 / 2 ^ 1074)"
    unfolding e x by (simp add: power_int_minus_divide)
  with p show ?thesis by simp
qed

text \<open>Two submits that pass the checks: a deposit that is created, a withdrawal that is edited.\<close>

lemma handleSubmit_create_example:
  "handleSubmit None ''k3j9x2a''
     \<lparr>date = ''2024-05-01'', amount = ''500'', ethPrice = ''2000'', isLoading = False,
      type = deposit\<rparr> =
   (\<lparr>date = ''2024-05-01'', amount = [], ethPrice = ''2000'', isLoading = True,
     type = deposit\<rparr>,
    [PreventDefault,
     OnAddInvestment
       \<lparr>inv_id = ''k3j9x2a'', inv_date = ''2024-05-01'', inv_amount = Num False (Finite 500),
        inv_ethPrice = Num False (Finite 2000), inv_ethAmount = Num False (Finite (1 / 4)),
        inv_type = deposit\<rparr>,
     GetEthPrice, ToastSuccess ''Investment added''])"
proof -
  have q: "(500 / 2000 :: rat) = 1 / 4" by simp
  show ?thesis
    by (subst handleSubmit_valid)
      (simp_all add: parseFloat_500 parseFloat_2000 js_gt_def zero_def q round_mag_quarter)
qed

lemma handleSubmit_edit_example:
  "handleSubmit
     (Some \<lparr>inv_id = ''ab12cd3'', inv_date = ''2024-04-01'', inv_amount = Num False (Finite 500),
        inv_ethPrice = Num False (Finite 2000), inv_ethAmount = Num False (Finite (1 / 4)),
        inv_type = deposit\<rparr>)
     ''k3j9x2a''
     \<lparr>date = ''2024-05-01'', amount = ''500'', ethPrice = ''2000'', isLoading = False,
      type = withdrawal\<rparr> =
   (\<lparr>date = ''2024-05-01'', amount = ''500'', ethPrice = ''2000'', isLoading = False,
     type = withdrawal\<rparr>,
    [PreventDefault,
     OnAddInvestment
       \<lparr>inv_id = ''ab12cd3'', inv_date = ''2024-05-01'', inv_amount = Num True (Finite 500),
        inv_ethPrice = Num False (Finite 2000), inv_ethAmount = Num True (Finite (1 / 4)),
        inv_type = withdrawal\<rparr>,
     ToastSuccess ''Investment updated''])"
proof -
  have q: "(500 / 2000 :: rat) = 1 / 4" by simp
  show ?thesis
    by (subst handleSubmit_valid)
      (simp_all add: parseFloat_500 parseFloat_2000 js_gt_def zero_def q round_mag_quarter)
qed

section \<open>The route guard shows one of three things\<close>

text \<open>
  Claim C7. While the authentication state is loading, the guard renders the loading
  placeholder only; once loaded without a user it redirects to \<open>/login\<close> only; once
  loaded with a user it renders the children, unchanged, and does not redirect.
\<close>

theorem PrivateRoute_cases:
  "(loading auth \<longrightarrow>
      PrivateRoute children auth = Div ''Loading...'' \<and>
      PrivateRoute children auth \<noteq> Children children \<and>
      (\<forall>path. PrivateRoute children auth \<noteq> Navigate path)) \<and>
   (\<not> loading auth \<and> user auth = None \<longrightarrow>
      PrivateRoute children auth = Navigate ''/login'' \<and>
      PrivateRoute children auth \<noteq> Children children) \<and>
   (\<not> loading auth \<and> user auth \<noteq> None \<longrightarrow>
      PrivateRoute children auth = Children children \<and>
      (\<forall>path. PrivateRoute children auth \<noteq> Navigate path))"
  by (cases "user auth") (simp_all add: PrivateRoute_def)

theorem PrivateRoute_cases_witness:
  "PrivateRoute ''page'' \<lparr>user = Some ''ana'', loading = True\<rparr> = Div ''Loading...'' \<and>
   PrivateRoute ''page'' \<lparr>user = (None :: string option), loading = False\<rparr> = Navigate ''/login'' \<and>
   PrivateRoute ''page'' \<lparr>user = Some ''ana'', loading = False\<rparr> = Children ''page''"
  using PrivateRoute_cases [of "\<lparr>user = Some ''ana'', loading = True\<rparr>" "''page''"]
    PrivateRoute_cases [of "\<lparr>user = (None :: string option), loading = False\<rparr>" "''page''"]
    PrivateRoute_cases [of "\<lparr>user = Some ''ana'', loading = False\<rparr>" "''page''"]
  by simp

section \<open>Submitting: the three checks\<close>

text \<open>
  Claim C3. When the date, the amount or the price is the empty string, the submit ends
  with the notification "Please complete all fields": \<open>onAddInvestment\<close> is not called
  and the state of the form is the one before.
\<close>

theorem submit_missing_field:
  assumes "date st = [] \<or> amount st = [] \<or> ethPrice st = []"
  shows "snd (handleSubmit editingInvestment randomId st) =
      [PreventDefault, ToastError ''Please complete all fields''] \<and>
    submitted (snd (handleSubmit editingInvestment randomId st)) = [] \<and>
    fst (handleSubmit editingInvestment randomId st) = st"
  using assms by (auto simp: handleSubmit_def)

theorem submit_missing_field_witness:
  "snd (handleSubmit None ''k3j9x2a''
      \<lparr>date = ''2024-05-01'', amount = [], ethPrice = ''3500'', isLoading = False,
       type = deposit\<rparr>) =
     [PreventDefault, ToastError ''Please complete all fields''] \<and>
   fst (handleSubmit None ''k3j9x2a''
      \<lparr>date = ''2024-05-01'', amount = [], ethPrice = ''3500'', isLoading = False,
       type = deposit\<rparr>) =
     \<lparr>date = ''2024-05-01'', amount = [], ethPrice = ''3500'', isLoading = False,
      type = deposit\<rparr>"
  using submit_missing_field [of
      "\<lparr>date = ''2024-05-01'', amount = [], ethPrice = ''3500'', isLoading = False,
        type = deposit\<rparr>" None "''k3j9x2a''"]
  by simp

text \<open>
  Claim C4 says that when the three fields are not empty and the amount or the price fails
  to parse as a decimal number, the submit ends with "Please enter valid numeric values".
  \<open>parseFloat\<close> takes the longest numeric prefix and ignores what follows: the amount
  \<open>12abc\<close> is not a decimal number, yet it parses to \<open>12\<close>, no error is notified and a
  record with the amount \<open>12\<close> is passed on.
\<close>

theorem submit_not_numeric_counterexample:
  "date \<lparr>date = ''2024-05-01'', amount = ''12abc'', ethPrice = ''3'', isLoading = False,
      type = deposit\<rparr> \<noteq> [] \<and>
   amount \<lparr>date = ''2024-05-01'', amount = ''12abc'', ethPrice = ''3'', isLoading = False,
      type = deposit\<rparr> \<noteq> [] \<and>
   ethPrice \<lparr>date = ''2024-05-01'', amount = ''12abc'', ethPrice = ''3'', isLoading = False,
      type = deposit\<rparr> \<noteq> [] \<and>
   \<not> spec_decimal_number ''12abc'' \<and>
   toast_errors (snd (handleSubmit None ''k3j9x2a''
     \<lparr>date = ''2024-05-01'', amount = ''12abc'', ethPrice = ''3'', isLoading = False,
      type = deposit\<rparr>)) = [] \<and>
   submitted (snd (handleSubmit None ''k3j9x2a''
     \<lparr>date = ''2024-05-01'', amount = ''12abc'', ethPrice = ''3'', isLoading = False,
      type = deposit\<rparr>)) =
     [\<lparr>inv_id = ''k3j9x2a'', inv_date = ''2024-05-01'', inv_amount = Num False (Finite 12),
       inv_ethPrice = Num False (Finite 3), inv_ethAmount = Num False (Finite 4),
       inv_type = deposit\<rparr>]"
proof -
  have q: "(12 / 3 :: rat) = 4" by simp
  have n: "\<not> spec_decimal_number ''12abc''"
    by (simp add: spec_decimal_number_def is_digit_def Let_def)
  have "handleSubmit None ''k3j9x2a''
     \<lparr>date = ''2024-05-01'', amount = ''12abc'', ethPrice = ''3'', isLoading = False,
      type = deposit\<rparr> =
    (\<lparr>date = ''2024-05-01'', amount = [], ethPrice = ''3'', isLoading = True, type = deposit\<rparr>,
     [PreventDefault,
      OnAddInvestment
        \<lparr>inv_id = ''k3j9x2a'', inv_date = ''2024-05-01'', inv_amount = Num False (Finite 12),
         inv_ethPrice = Num False (Finite 3), inv_ethAmount = Num False (Finite 4),
         inv_type = deposit\<rparr>,
      GetEthPrice, ToastSuccess ''Investment added''])"
    by (subst handleSubmit_valid)
      (simp_all add: parseFloat_12abc parseFloat_3 js_gt_def zero_def q round_mag_numeral)
  then show ?thesis using n by simp
qed

text \<open>
  Claim C4, amended. When the three fields are not empty and the amount or the price does
  not begin with a number (after leading white space and an optional sign it starts
  neither with a digit, nor with a point and a digit, nor with \<open>Infinity\<close>, as for
  \<open>abc\<close> and \<open>xyz\<close>), the submit ends with the notification "Please enter valid
  numeric values", \<open>onAddInvestment\<close> is not called and the state is unchanged. When
  both begin with a number, whatever follows it, that notification is not shown.
\<close>

theorem submit_not_numeric:
  assumes "date st \<noteq> []" and "amount st \<noteq> []" and "ethPrice st \<noteq> []"
  shows "(\<not> starts_number (amount st) \<or> \<not> starts_number (ethPrice st) \<longrightarrow>
      snd (handleSubmit editingInvestment randomId st) =
        [PreventDefault, ToastError ''Please enter valid numeric values''] \<and>
      submitted (snd (handleSubmit editingInvestment randomId st)) = [] \<and>
      fst (handleSubmit editingInvestment randomId st) = st) \<and>
    (starts_number (amount st) \<and> starts_number (ethPrice st) \<longrightarrow>
      ''Please enter valid numeric values'' \<notin>
        set (toast_errors (snd (handleSubmit editingInvestment randomId st))))"
proof -
  have rejected: "snd (handleSubmit editingInvestment randomId st) =
        [PreventDefault, ToastError ''Please enter valid numeric values''] \<and>
      submitted (snd (handleSubmit editingInvestment randomId st)) = [] \<and>
      fst (handleSubmit editingInvestment randomId st) = st"
    if "\<not> starts_number (amount st) \<or> \<not> starts_number (ethPrice st)"
  proof -
    from that have "isNaN (parseFloat (amount st)) \<or> isNaN (parseFloat (ethPrice st))"
      by (simp add: parseFloat_NaN_iff)
    then show ?thesis
      using assms by (auto simp: handleSubmit_def Let_def)
  qed
  have passed: "''Please enter valid numeric values'' \<notin>
      set (toast_errors (snd (handleSubmit editingInvestment randomId st)))"
    if "starts_number (amount st) \<and> starts_number (ethPrice st)"
  proof -
    from that have "\<not> isNaN (parseFloat (amount st))" "\<not> isNaN (parseFloat (ethPrice st))"
      by (simp_all add: parseFloat_NaN_iff)
    then show ?thesis
      using assms
      by (cases editingInvestment) (simp_all add: handleSubmit_def Let_def fetchEthPrice_start_def)
  qed
  show ?thesis
    using rejected passed by blast
qed

theorem submit_not_numeric_witness:
  "\<not> starts_number ''abc'' \<and> \<not> starts_number ''xyz'' \<and>
   snd (handleSubmit None ''k3j9x2a''
      \<lparr>date = ''2024-05-01'', amount = ''abc'', ethPrice = ''3500'', isLoading = False,
       type = deposit\<rparr>) =
     [PreventDefault, ToastError ''Please enter valid numeric values''] \<and>
   snd (handleSubmit None ''k3j9x2a''
      \<lparr>date = ''2024-05-01'', amount = ''500'', ethPrice = ''xyz'', isLoading = False,
       type = deposit\<rparr>) =
     [PreventDefault, ToastError ''Please enter valid numeric values'']"
proof -
  have a: "\<not> starts_number ''abc''" and x: "\<not> starts_number ''xyz''"
    by (simp_all add: starts_number_def starts_unsigned_def is_white_space_def is_digit_def)
  show ?thesis
    using a x
      submit_not_numeric [of
        "\<lparr>date = ''2024-05-01'', amount = ''abc'', ethPrice = ''3500'', isLoading = False,
          type = deposit\<rparr>" None "''k3j9x2a''"]
      submit_not_numeric [of
        "\<lparr>date = ''2024-05-01'', amount = ''500'', ethPrice = ''xyz'', isLoading = False,
          type = deposit\<rparr>" None "''k3j9x2a''"]
    by simp
qed

text \<open>
  Claim C5. When the three fields are not empty and both parse to numbers, and one of the
  two numbers is not greater than zero (as for \<open>-5\<close> and \<open>0\<close>), the submit ends with
  the notification "Values must be greater than zero" and \<open>onAddInvestment\<close> is not
  called.
\<close>

theorem submit_not_positive:
  assumes "date st \<noteq> []" and "amount st \<noteq> []" and "ethPrice st \<noteq> []"
    and "\<not> isNaN (parseFloat (amount st))" and "\<not> isNaN (parseFloat (ethPrice st))"
    and "\<not> js_gt (parseFloat (amount st)) zero \<or> \<not> js_gt (parseFloat (ethPrice st)) zero"
  shows "snd (handleSubmit editingInvestment randomId st) =
      [PreventDefault, ToastError ''Values must be greater than zero''] \<and>
    submitted (snd (handleSubmit editingInvestment randomId st)) = [] \<and>
    fst (handleSubmit editingInvestment randomId st) = st"
proof -
  have "js_le (parseFloat (amount st)) zero \<or> js_le (parseFloat (ethPrice st)) zero"
    using assms(4-6) by (auto simp: js_le_zero_iff)
  then show ?thesis
    using assms(1-5) by (auto simp: handleSubmit_def Let_def)
qed

theorem submit_not_positive_witness:
  "parseFloat ''-5'' = Num True (Finite 5) \<and> parseFloat ''0'' = Num False (Finite 0) \<and>
   snd (handleSubmit None ''k3j9x2a''
      \<lparr>date = ''2024-05-01'', amount = ''-5'', ethPrice = ''3500'', isLoading = False,
       type = deposit\<rparr>) =
     [PreventDefault, ToastError ''Values must be greater than zero''] \<and>
   snd (handleSubmit None ''k3j9x2a''
      \<lparr>date = ''2024-05-01'', amount = ''500'', ethPrice = ''0'', isLoading = False,
       type = deposit\<rparr>) =
     [PreventDefault, ToastError ''Values must be greater than zero'']"
proof -
  have a: "parseFloat ''-5'' = Num True (Finite 5)" and b: "parseFloat ''0'' = Num False (Finite 0)"
    and c: "parseFloat ''3500'' = Num False (Finite 3500)"
    and d: "parseFloat ''500'' = Num False (Finite 500)"
    by (simp_all add: parseFloat_eval)
  show ?thesis
    using a b
      submit_not_positive [of
        "\<lparr>date = ''2024-05-01'', amount = ''-5'', ethPrice = ''3500'', isLoading = False,
          type = deposit\<rparr>" None "''k3j9x2a''"]
      submit_not_positive [of
        "\<lparr>date = ''2024-05-01'', amount = ''500'', ethPrice = ''0'', isLoading = False,
          type = deposit\<rparr>" None "''k3j9x2a''"]
    by (simp add: a b c d isNaN_def js_gt_def zero_def)
qed

text \<open>
  Claim C10 says that an amount (or a price) made of white space only, and not empty, gets
  past the check of the required fields and ends with "Please enter valid numeric values".
  As stated it fails when another field is empty: with an empty date and the amount
  \<open>'' ''\<close> the notification is "Please complete all fields".
\<close>

theorem submit_white_space_counterexample:
  "amount \<lparr>date = [], amount = '' '', ethPrice = ''3500'', isLoading = False, type = deposit\<rparr> \<noteq> [] \<and>
   list_all is_white_space
     (amount \<lparr>date = [], amount = '' '', ethPrice = ''3500'', isLoading = False, type = deposit\<rparr>) \<and>
   toast_errors (snd (handleSubmit None ''k3j9x2a''
      \<lparr>date = [], amount = '' '', ethPrice = ''3500'', isLoading = False, type = deposit\<rparr>)) =
     [''Please complete all fields''] \<and>
   toast_errors (snd (handleSubmit None ''k3j9x2a''
      \<lparr>date = [], amount = '' '', ethPrice = ''3500'', isLoading = False, type = deposit\<rparr>)) \<noteq>
     [''Please enter valid numeric values'']"
  by (simp add: handleSubmit_def is_white_space_def)

text \<open>
  Claim C10, amended. When the date, the amount and the price are not empty and the amount
  or the price is made of white space only, the check of the required fields passes, the
  parse fails, and the submit ends with the notification "Please enter valid numeric
  values", not with "Please complete all fields"; \<open>onAddInvestment\<close> is not called.
\<close>

theorem submit_white_space:
  assumes "date st \<noteq> []" and "amount st \<noteq> []" and "ethPrice st \<noteq> []"
    and "list_all is_white_space (amount st) \<or> list_all is_white_space (ethPrice st)"
  shows "snd (handleSubmit editingInvestment randomId st) =
      [PreventDefault, ToastError ''Please enter valid numeric values''] \<and>
    toast_errors (snd (handleSubmit editingInvestment randomId st)) =
      [''Please enter valid numeric values''] \<and>
    submitted (snd (handleSubmit editingInvestment randomId st)) = []"
proof -
  have "isNaN (parseFloat (amount st)) \<or> isNaN (parseFloat (ethPrice st))"
    using assms(4) by (auto simp: isNaN_def parseFloat_white_space)
  then show ?thesis
    using assms(1-3) by (auto simp: handleSubmit_def Let_def)
qed

theorem submit_white_space_witness:
  "list_all is_white_space '' '' \<and>
   snd (handleSubmit None ''k3j9x2a''
      \<lparr>date = ''2024-05-01'', amount = '' '', ethPrice = ''3500'', isLoading = False,
       type = deposit\<rparr>) =
     [PreventDefault, ToastError ''Please enter valid numeric values'']"
  using submit_white_space [of
      "\<lparr>date = ''2024-05-01'', amount = '' '', ethPrice = ''3500'', isLoading = False,
        type = deposit\<rparr>" None "''k3j9x2a''"]
  by (simp add: is_white_space_def)

section \<open>Submitting: the record that is passed on\<close>

text \<open>
  Claim C1 says that for a non-empty date and an amount and a price that parse to positive
  numbers \<open>a\<close> and \<open>p\<close>, the record has the amount \<open>a\<close>, the price \<open>p\<close> and the
  ETH amount \<open>a / p\<close>, both amounts positive (for a withdrawal both negated, both
  negative). The quotient is a double: with the amount \<open>5e-324\<close>, the least positive
  double, and the price \<open>4\<close> it underflows, and the ETH amount of the deposit is zero.
\<close>

theorem submit_valid_record_counterexample:
  "date \<lparr>date = ''2024-05-01'', amount = ''5e-324'', ethPrice = ''4'', isLoading = False,
      type = deposit\<rparr> \<noteq> [] \<and>
   js_gt (parseFloat ''5e-324'') zero \<and> js_gt (parseFloat ''4'') zero \<and>
   submitted (snd (handleSubmit None ''k3j9x2a''
     \<lparr>date = ''2024-05-01'', amount = ''5e-324'', ethPrice = ''4'', isLoading = False,
      type = deposit\<rparr>)) =
     [\<lparr>inv_id = ''k3j9x2a'', inv_date = ''2024-05-01'',
       inv_amount = Num False (Finite (1 / 2 ^ 1074)), inv_ethPrice = Num False (Finite 4),
       inv_ethAmount = Num False (Finite 0), inv_type = deposit\<rparr>] \<and>
   \<not> js_gt (Num False (Finite 0)) zero"
proof -
  define tiny :: rat where "tiny = 1 / 2 ^ 1074"
  have t: "0 < tiny" by (simp add: tiny_def)
  have a: "parseFloat ''5e-324'' = Num False (Finite tiny)"
    unfolding tiny_def by (rule parseFloat_least)
  have "round_mag (tiny / 4) = Finite 0"
    unfolding tiny_def by (rule round_mag_underflow) simp
  then have d: "js_div (Num False (Finite tiny)) (Num False (Finite 4)) = Num False (Finite 0)"
    by simp
  have g: "js_gt (parseFloat ''5e-324'') zero" "js_gt (parseFloat ''4'') zero"
    using t by (simp_all add: a parseFloat_4 js_gt_def zero_def)
  have "handleSubmit None ''k3j9x2a''
     \<lparr>date = ''2024-05-01'', amount = ''5e-324'', ethPrice = ''4'', isLoading = False,
      type = deposit\<rparr> =
    (\<lparr>date = ''2024-05-01'', amount = [], ethPrice = ''4'', isLoading = True, type = deposit\<rparr>,
     [PreventDefault,
      OnAddInvestment
        \<lparr>inv_id = ''k3j9x2a'', inv_date = ''2024-05-01'',
         inv_amount = Num False (Finite tiny), inv_ethPrice = Num False (Finite 4),
         inv_ethAmount = Num False (Finite 0), inv_type = deposit\<rparr>,
      GetEthPrice, ToastSuccess ''Investment added''])"
    using g by (subst handleSubmit_valid) (simp_all add: a parseFloat_4 d del: js_div.simps)
  then show ?thesis
    using g unfolding tiny_def by (simp add: js_gt_def zero_def)
qed

text \<open>
  Claim C1, amended. For a non-empty date and an amount and a price that parse to positive
  numbers \<open>a\<close> and \<open>p\<close>, exactly one record is passed to \<open>onAddInvestment\<close>. Its
  price is \<open>p\<close>, positive. For a deposit its amount is \<open>a\<close>, positive, and its ETH
  amount is the double quotient \<open>a / p\<close>, which is never negative and is positive
  exactly when \<open>p\<close> is finite and \<open>a\<close> is infinite or the exact quotient is above
  \<open>2 ^ - 1075\<close>; otherwise it is zero or NaN. For a withdrawal the amount is \<open>- a\<close>,
  negative, and the ETH amount is \<open>- (a / p)\<close>, never positive and negative under the
  same condition.
\<close>

theorem submit_valid_record:
  assumes "date st \<noteq> []"
    and "parseFloat (amount st) = a" and "parseFloat (ethPrice st) = p"
    and "js_gt a zero" and "js_gt p zero"
  shows "\<exists>d. submitted (snd (handleSubmit editingInvestment randomId st)) = [d] \<and>
    inv_ethPrice d = p \<and> js_gt (inv_ethPrice d) zero \<and>
    (type st = deposit \<longrightarrow>
       inv_amount d = a \<and> inv_ethAmount d = js_div a p \<and> js_gt (inv_amount d) zero \<and>
       \<not> js_lt (inv_ethAmount d) zero \<and>
       (js_gt (inv_ethAmount d) zero \<longleftrightarrow> quotient_nonzero a p)) \<and>
    (type st = withdrawal \<longrightarrow>
       inv_amount d = js_neg a \<and> inv_ethAmount d = js_neg (js_div a p) \<and>
       js_lt (inv_amount d) zero \<and> \<not> js_gt (inv_ethAmount d) zero \<and>
       (js_lt (inv_ethAmount d) zero \<longleftrightarrow> quotient_nonzero a p))"
proof -
  have v: "js_gt (parseFloat (amount st)) zero" "js_gt (parseFloat (ethPrice st)) zero"
    using assms by simp_all
  have wf: "well_formed a" "well_formed p"
    using assms(2,3) parseFloat_well_formed by auto
  note dp = js_div_positive [OF wf assms(4,5)]
  show ?thesis
  proof (cases "type st")
    case deposit
    then show ?thesis
      unfolding handleSubmit_valid [OF assms(1) v]
      using assms(2-5) dp by (cases editingInvestment) (simp_all add: js_gt_def)
  next
    case withdrawal
    then show ?thesis
      unfolding handleSubmit_valid [OF assms(1) v]
      using assms(2-5) dp
      by (cases editingInvestment) (simp_all add: js_lt_neg_zero js_gt_neg_zero)
  qed
qed

theorem submit_valid_record_witness:
  "js_gt (Num False (Finite 500)) zero \<and> js_gt (Num False (Finite 2000)) zero \<and>
   (\<exists>d. submitted (snd (handleSubmit None ''k3j9x2a''
       \<lparr>date = ''2024-05-01'', amount = ''500'', ethPrice = ''2000'', isLoading = False,
        type = deposit\<rparr>)) = [d] \<and>
     inv_amount d = Num False (Finite 500) \<and> inv_ethPrice d = Num False (Finite 2000) \<and>
     inv_ethAmount d = js_div (Num False (Finite 500)) (Num False (Finite 2000)) \<and>
     js_gt (inv_ethAmount d) zero) \<and>
   (\<exists>d. submitted (snd (handleSubmit None ''k3j9x2a''
       \<lparr>date = ''2024-05-01'', amount = ''500'', ethPrice = ''2000'', isLoading = False,
        type = withdrawal\<rparr>)) = [d] \<and>
     inv_amount d = Num True (Finite 500) \<and> inv_ethPrice d = Num False (Finite 2000) \<and>
     inv_ethAmount d = js_neg (js_div (Num False (Finite 500)) (Num False (Finite 2000))) \<and>
     js_lt (inv_ethAmount d) zero)"
proof -
  have g: "js_gt (Num False (Finite 500)) zero" "js_gt (Num False (Finite 2000)) zero"
    by (simp_all add: js_gt_def zero_def)
  have q: "quotient_nonzero (Num False (Finite 500)) (Num False (Finite 2000))"
    by (simp add: quotient_nonzero_def)
  have n: "date \<lparr>date = ''2024-05-01'', amount = ''500'', ethPrice = ''2000'', isLoading = False,
        type = deposit\<rparr> \<noteq> []"
    "date \<lparr>date = ''2024-05-01'', amount = ''500'', ethPrice = ''2000'', isLoading = False,
        type = withdrawal\<rparr> \<noteq> []"
    by simp_all
  have a: "parseFloat (amount \<lparr>date = ''2024-05-01'', amount = ''500'', ethPrice = ''2000'',
        isLoading = False, type = deposit\<rparr>) = Num False (Finite 500)"
    "parseFloat (amount \<lparr>date = ''2024-05-01'', amount = ''500'', ethPrice = ''2000'',
        isLoading = False, type = withdrawal\<rparr>) = Num False (Finite 500)"
    by (simp_all add: parseFloat_500)
  have p: "parseFloat (ethPrice \<lparr>date = ''2024-05-01'', amount = ''500'', ethPrice = ''2000'',
        isLoading = False, type = deposit\<rparr>) = Num False (Finite 2000)"
    "parseFloat (ethPrice \<lparr>date = ''2024-05-01'', amount = ''500'', ethPrice = ''2000'',
        isLoading = False, type = withdrawal\<rparr>) = Num False (Finite 2000)"
    by (simp_all add: parseFloat_2000)
  show ?thesis
    using g q
      submit_valid_record [OF n(1) a(1) p(1) g, of None "''k3j9x2a''"]
      submit_valid_record [OF n(2) a(2) p(2) g, of None "''k3j9x2a''"]
    by (simp del: js_div.simps) blast
qed

text \<open>
  Claim C2 says that for every record that is constructed the comparison
  \<open>ethAmount == amount / ethPrice\<close> holds, and that the amount and the ETH amount have the
  sign of the type. With the amount \<open>Infinity\<close> and the price \<open>Infinity\<close> the three
  checks pass and the ETH amount is NaN, which is equal to nothing and has no sign.
\<close>

theorem submit_quotient_counterexample:
  "submitted (snd (handleSubmit None ''k3j9x2a''
     \<lparr>date = ''2024-05-01'', amount = ''Infinity'', ethPrice = ''Infinity'', isLoading = False,
      type = deposit\<rparr>)) =
     [\<lparr>inv_id = ''k3j9x2a'', inv_date = ''2024-05-01'', inv_amount = Num False Infinite,
       inv_ethPrice = Num False Infinite, inv_ethAmount = NaN, inv_type = deposit\<rparr>] \<and>
   \<not> js_eq NaN (js_div (Num False Infinite) (Num False Infinite)) \<and>
   js_sign NaN \<noteq> js_sign (Num False Infinite)"
proof -
  have i: "parseFloat ''Infinity'' = Num False Infinite"
    by (simp add: parseFloat_eval)
  show ?thesis
    by (subst handleSubmit_valid) (simp_all add: i js_gt_def zero_def)
qed

text \<open>
  Claim C2, amended. For every record passed to \<open>onAddInvestment\<close>, the ETH amount is
  the same Number as the double quotient of the amount by the price, sign included; the
  comparison \<open>ethAmount == amount / ethPrice\<close> is true unless the amount and the price
  are both infinite, when both sides are NaN. The sign of the amount is \<open>-1\<close> for a
  withdrawal and \<open>+1\<close> for a deposit, and the ETH amount has the same sign exactly when
  the quotient neither underflows to zero nor is NaN.
\<close>

theorem submit_quotient:
  assumes "OnAddInvestment d \<in> set (snd (handleSubmit editingInvestment randomId st))"
  shows "inv_ethAmount d = js_div (inv_amount d) (inv_ethPrice d) \<and>
    (js_eq (inv_ethAmount d) (js_div (inv_amount d) (inv_ethPrice d)) \<longleftrightarrow>
       \<not> (finite_val (inv_amount d) = None \<and> finite_val (inv_ethPrice d) = None)) \<and>
    js_sign (inv_amount d) =
      (if inv_type d = withdrawal then Num True (Finite 1) else Num False (Finite 1)) \<and>
    (js_sign (inv_ethAmount d) = js_sign (inv_amount d) \<longleftrightarrow>
       quotient_nonzero (inv_amount d) (inv_ethPrice d))"
proof -
  define a where "a = parseFloat (amount st)"
  define p where "p = parseFloat (ethPrice st)"
  from handleSubmit_submitted [OF assms]
  have v: "date st \<noteq> []" "js_gt (parseFloat (amount st)) zero"
    "js_gt (parseFloat (ethPrice st)) zero"
    by simp_all
  have pos: "js_gt a zero" "js_gt p zero" using v by (simp_all add: a_def p_def)
  have wf: "well_formed a" "well_formed p"
    by (simp_all add: a_def p_def parseFloat_well_formed)
  have d: "inv_amount d = (if type st = withdrawal then js_neg a else a)"
    "inv_ethPrice d = p"
    "inv_ethAmount d = (if type st = withdrawal then js_neg (js_div a p) else js_div a p)"
    "inv_type d = type st"
    using assms unfolding handleSubmit_valid [OF v] a_def p_def
    by (cases editingInvestment; auto)+
  note dp = js_div_positive [OF wf pos]
  note dn = js_div_NaN_iff [OF wf pos]
  have sa: "js_sign a = Num False (Finite 1)"
    using pos(1) wf(1) by (simp add: js_sign_positive_iff)
  have sq: "js_sign (js_div a p) = js_sign a \<longleftrightarrow> quotient_nonzero a p"
    unfolding sa using dp by (simp add: js_sign_positive_iff js_div_well_formed)
  have qn: "quotient_nonzero (js_neg a) p = quotient_nonzero a p"
    by (simp add: quotient_nonzero_def finite_val_neg cong: option.case_cong)
  show ?thesis
  proof (cases "type st = withdrawal")
    case True
    have san: "js_sign (js_neg a) = Num True (Finite 1)"
      by (simp add: js_sign_neg sa)
    have "js_sign (js_neg (js_div a p)) = js_sign (js_neg a) \<longleftrightarrow> quotient_nonzero a p"
      by (simp only: js_sign_neg js_neg_eq_iff sq)
    then have sqn: "js_sign (js_neg (js_div a p)) = Num True (Finite 1) \<longleftrightarrow> quotient_nonzero a p"
      by (simp only: san)
    from True show ?thesis
      unfolding d using dn
      by (simp add: js_div_neg_left js_eq_self isNaN_neg san sqn qn finite_val_neg)
  next
    case False
    then show ?thesis
      unfolding d using dn sa sq by (simp add: js_eq_self)
  qed
qed

theorem submit_quotient_witness:
  "js_eq (Num False (Finite (1 / 4))) (js_div (Num False (Finite 500)) (Num False (Finite 2000))) \<and>
   js_sign (Num False (Finite (1 / 4))) = js_sign (Num False (Finite 500)) \<and>
   Num True (Finite (1 / 4)) = js_div (Num True (Finite 500)) (Num False (Finite 2000)) \<and>
   js_sign (Num True (Finite (1 / 4))) = js_sign (Num True (Finite 500))"
proof -
  let ?d1 = "\<lparr>inv_id = ''k3j9x2a'', inv_date = ''2024-05-01'', inv_amount = Num False (Finite 500),
        inv_ethPrice = Num False (Finite 2000), inv_ethAmount = Num False (Finite (1 / 4)),
        inv_type = deposit\<rparr>"
  let ?d2 = "\<lparr>inv_id = ''ab12cd3'', inv_date = ''2024-05-01'', inv_amount = Num True (Finite 500),
        inv_ethPrice = Num False (Finite 2000), inv_ethAmount = Num True (Finite (1 / 4)),
        inv_type = withdrawal\<rparr>"
  have a: "OnAddInvestment ?d1 \<in> set (snd (handleSubmit None ''k3j9x2a''
     \<lparr>date = ''2024-05-01'', amount = ''500'', ethPrice = ''2000'', isLoading = False,
      type = deposit\<rparr>))"
    unfolding handleSubmit_create_example by simp
  have b: "OnAddInvestment ?d2 \<in> set (snd (handleSubmit
     (Some \<lparr>inv_id = ''ab12cd3'', inv_date = ''2024-04-01'', inv_amount = Num False (Finite 500),
        inv_ethPrice = Num False (Finite 2000), inv_ethAmount = Num False (Finite (1 / 4)),
        inv_type = deposit\<rparr>)
     ''k3j9x2a''
     \<lparr>date = ''2024-05-01'', amount = ''500'', ethPrice = ''2000'', isLoading = False,
      type = withdrawal\<rparr>))"
    unfolding handleSubmit_edit_example by simp
  have q: "quotient_nonzero (Num False (Finite 500)) (Num False (Finite 2000))"
    "quotient_nonzero (Num True (Finite 500)) (Num False (Finite 2000))"
    by (simp_all add: quotient_nonzero_def)
  show ?thesis
    using submit_quotient [OF a] submit_quotient [OF b] q
    by (simp add: round_mag_quarter)
qed

text \<open>
  Claim C6 says that whenever a record is being edited the submitted record has its
  identifier. The handler takes the identifier with \<open>||\<close>, and the empty string is falsy:
  editing a record whose identifier is the empty string submits a record with a freshly
  generated identifier.
\<close>

theorem submit_identifier_counterexample:
  "submitted (snd (handleSubmit
     (Some \<lparr>inv_id = [], inv_date = ''2024-04-01'', inv_amount = Num False (Finite 500),
        inv_ethPrice = Num False (Finite 2000), inv_ethAmount = Num False (Finite (1 / 4)),
        inv_type = deposit\<rparr>)
     ''k3j9x2a''
     \<lparr>date = ''2024-05-01'', amount = ''500'', ethPrice = ''2000'', isLoading = False,
      type = deposit\<rparr>)) =
     [\<lparr>inv_id = ''k3j9x2a'', inv_date = ''2024-05-01'', inv_amount = Num False (Finite 500),
       inv_ethPrice = Num False (Finite 2000), inv_ethAmount = Num False (Finite (1 / 4)),
       inv_type = deposit\<rparr>] \<and>
   ''k3j9x2a'' \<noteq>
     inv_id \<lparr>inv_id = [], inv_date = ''2024-04-01'', inv_amount = Num False (Finite 500),
        inv_ethPrice = Num False (Finite 2000), inv_ethAmount = Num False (Finite (1 / 4)),
        inv_type = deposit\<rparr>"
proof -
  have q: "(500 / 2000 :: rat) = 1 / 4" by simp
  show ?thesis
    by (subst handleSubmit_valid)
      (simp_all add: parseFloat_500 parseFloat_2000 js_gt_def zero_def q round_mag_quarter)
qed

text \<open>
  Claim C6, amended. After a successful submit: when a record is being edited and its
  identifier is not the empty string, the submitted record has that identifier (when it
  is the empty string, the generated one), and the notification is "Investment updated";
  when no record is being edited, the submitted record has the generated random
  identifier and the notification is "Investment added".
\<close>

theorem submit_identifier:
  assumes "OnAddInvestment d \<in> set (snd (handleSubmit editingInvestment randomId st))"
  shows "(editingInvestment = None \<longrightarrow>
      inv_id d = randomId \<and>
      toast_successes (snd (handleSubmit editingInvestment randomId st)) = [''Investment added'']) \<and>
    (\<forall>e. editingInvestment = Some e \<longrightarrow>
      (inv_id e \<noteq> [] \<longrightarrow> inv_id d = inv_id e) \<and>
      (inv_id e = [] \<longrightarrow> inv_id d = randomId) \<and>
      toast_successes (snd (handleSubmit editingInvestment randomId st)) =
        [''Investment updated''])"
proof -
  from handleSubmit_submitted [OF assms]
  have v: "date st \<noteq> []" "js_gt (parseFloat (amount st)) zero"
    "js_gt (parseFloat (ethPrice st)) zero"
    by simp_all
  show ?thesis
    using assms unfolding handleSubmit_valid [OF v] by (cases editingInvestment) auto
qed

theorem submit_identifier_witness:
  "toast_successes (snd (handleSubmit None ''k3j9x2a''
     \<lparr>date = ''2024-05-01'', amount = ''500'', ethPrice = ''2000'', isLoading = False,
      type = deposit\<rparr>)) = [''Investment added''] \<and>
   toast_successes (snd (handleSubmit
     (Some \<lparr>inv_id = ''ab12cd3'', inv_date = ''2024-04-01'', inv_amount = Num False (Finite 500),
        inv_ethPrice = Num False (Finite 2000), inv_ethAmount = Num False (Finite (1 / 4)),
        inv_type = deposit\<rparr>)
     ''k3j9x2a''
     \<lparr>date = ''2024-05-01'', amount = ''500'', ethPrice = ''2000'', isLoading = False,
      type = withdrawal\<rparr>)) = [''Investment updated''] \<and>
   inv_id \<lparr>inv_id = ''k3j9x2a'', inv_date = ''2024-05-01'', inv_amount = Num False (Finite 500),
        inv_ethPrice = Num False (Finite 2000), inv_ethAmount = Num False (Finite (1 / 4)),
        inv_type = deposit\<rparr> = ''k3j9x2a'' \<and>
   inv_id \<lparr>inv_id = ''ab12cd3'', inv_date = ''2024-05-01'', inv_amount = Num True (Finite 500),
        inv_ethPrice = Num False (Finite 2000), inv_ethAmount = Num True (Finite (1 / 4)),
        inv_type = withdrawal\<rparr> = ''ab12cd3''"
proof -
  let ?d1 = "\<lparr>inv_id = ''k3j9x2a'', inv_date = ''2024-05-01'', inv_amount = Num False (Finite 500),
        inv_ethPrice = Num False (Finite 2000), inv_ethAmount = Num False (Finite (1 / 4)),
        inv_type = deposit\<rparr>"
  let ?d2 = "\<lparr>inv_id = ''ab12cd3'', inv_date = ''2024-05-01'', inv_amount = Num True (Finite 500),
        inv_ethPrice = Num False (Finite 2000), inv_ethAmount = Num True (Finite (1 / 4)),
        inv_type = withdrawal\<rparr>"
  have a: "OnAddInvestment ?d1 \<in> set (snd (handleSubmit None ''k3j9x2a''
     \<lparr>date = ''2024-05-01'', amount = ''500'', ethPrice = ''2000'', isLoading = False,
      type = deposit\<rparr>))"
    unfolding handleSubmit_create_example by simp
  have b: "OnAddInvestment ?d2 \<in> set (snd (handleSubmit
     (Some \<lparr>inv_id = ''ab12cd3'', inv_date = ''2024-04-01'', inv_amount = Num False (Finite 500),
        inv_ethPrice = Num False (Finite 2000), inv_ethAmount = Num False (Finite (1 / 4)),
        inv_type = deposit\<rparr>)
     ''k3j9x2a''
     \<lparr>date = ''2024-05-01'', amount = ''500'', ethPrice = ''2000'', isLoading = False,
      type = withdrawal\<rparr>))"
    unfolding handleSubmit_edit_example by simp
  show ?thesis
    using submit_identifier [OF a] submit_identifier [OF b] by simp
qed

section \<open>Submitting: after the record is passed on\<close>

text \<open>
  Claim C9. After a successful submit (one that calls \<open>onAddInvestment\<close>): when a
  record is created, the amount field is the empty string and the price is fetched again
  (the loading flag is set and the price service is called once); when a record is edited,
  the state of the form is unchanged and the price service is not called.
\<close>

theorem submit_then_reset:
  assumes "OnAddInvestment d \<in> set (snd (handleSubmit editingInvestment randomId st))"
  shows "(editingInvestment = None \<longrightarrow>
      amount (fst (handleSubmit editingInvestment randomId st)) = [] \<and>
      fst (handleSubmit editingInvestment randomId st) = st\<lparr>amount := [], isLoading := True\<rparr> \<and>
      count_list (snd (handleSubmit editingInvestment randomId st)) GetEthPrice = 1) \<and>
    (editingInvestment \<noteq> None \<longrightarrow>
      fst (handleSubmit editingInvestment randomId st) = st \<and>
      GetEthPrice \<notin> set (snd (handleSubmit editingInvestment randomId st)))"
proof -
  from handleSubmit_submitted [OF assms]
  have v: "date st \<noteq> []" "js_gt (parseFloat (amount st)) zero"
    "js_gt (parseFloat (ethPrice st)) zero"
    by simp_all
  show ?thesis
    unfolding handleSubmit_valid [OF v] by (cases editingInvestment) simp_all
qed

theorem submit_then_reset_witness:
  "amount (fst (handleSubmit None ''k3j9x2a''
     \<lparr>date = ''2024-05-01'', amount = ''500'', ethPrice = ''2000'', isLoading = False,
      type = deposit\<rparr>)) = [] \<and>
   count_list (snd (handleSubmit None ''k3j9x2a''
     \<lparr>date = ''2024-05-01'', amount = ''500'', ethPrice = ''2000'', isLoading = False,
      type = deposit\<rparr>)) GetEthPrice = 1 \<and>
   fst (handleSubmit
     (Some \<lparr>inv_id = ''ab12cd3'', inv_date = ''2024-04-01'', inv_amount = Num False (Finite 500),
        inv_ethPrice = Num False (Finite 2000), inv_ethAmount = Num False (Finite (1 / 4)),
        inv_type = deposit\<rparr>)
     ''k3j9x2a''
     \<lparr>date = ''2024-05-01'', amount = ''500'', ethPrice = ''2000'', isLoading = False,
      type = withdrawal\<rparr>) =
     \<lparr>date = ''2024-05-01'', amount = ''500'', ethPrice = ''2000'', isLoading = False,
      type = withdrawal\<rparr>"
proof -
  let ?d1 = "\<lparr>inv_id = ''k3j9x2a'', inv_date = ''2024-05-01'', inv_amount = Num False (Finite 500),
        inv_ethPrice = Num False (Finite 2000), inv_ethAmount = Num False (Finite (1 / 4)),
        inv_type = deposit\<rparr>"
  let ?d2 = "\<lparr>inv_id = ''ab12cd3'', inv_date = ''2024-05-01'', inv_amount = Num True (Finite 500),
        inv_ethPrice = Num False (Finite 2000), inv_ethAmount = Num True (Finite (1 / 4)),
        inv_type = withdrawal\<rparr>"
  have a: "OnAddInvestment ?d1 \<in> set (snd (handleSubmit None ''k3j9x2a''
     \<lparr>date = ''2024-05-01'', amount = ''500'', ethPrice = ''2000'', isLoading = False,
      type = deposit\<rparr>))"
    unfolding handleSubmit_create_example by simp
  have b: "OnAddInvestment ?d2 \<in> set (snd (handleSubmit
     (Some \<lparr>inv_id = ''ab12cd3'', inv_date = ''2024-04-01'', inv_amount = Num False (Finite 500),
        inv_ethPrice = Num False (Finite 2000), inv_ethAmount = Num False (Finite (1 / 4)),
        inv_type = deposit\<rparr>)
     ''k3j9x2a''
     \<lparr>date = ''2024-05-01'', amount = ''500'', ethPrice = ''2000'', isLoading = False,
      type = withdrawal\<rparr>))"
    unfolding handleSubmit_edit_example by simp
  show ?thesis
    using submit_then_reset [OF a] submit_then_reset [OF b] by simp
qed

section \<open>Fetching the price\<close>

text \<open>
  Claim C8. When the price service fails, the price field keeps the value it had and the
  notification "Error getting ETH price. Enter it manually." is shown exactly once; and
  whether the service succeeds or fails, and whether the notification throws or not, the
  loading flag is false at the end. The same holds for the part of \<open>fetchEthPrice\<close>
  that runs once the service has settled, on whatever state \<open>st'\<close> the form has then.
\<close>

theorem fetchEthPrice_failure_and_cleanup:
  "ethPrice (fst (fetchEthPrice toString toast_throws Rejected st)) = ethPrice st \<and>
   toast_errors (fst (snd (fetchEthPrice toString toast_throws Rejected st))) =
     [''Error getting ETH price. Enter it manually.''] \<and>
   isLoading (fst (fetchEthPrice toString toast_throws res st)) = False \<and>
   ethPrice (fst (fetchEthPrice_settle toString toast_throws Rejected st')) = ethPrice st' \<and>
   toast_errors (fst (snd (fetchEthPrice_settle toString toast_throws Rejected st'))) =
     [''Error getting ETH price. Enter it manually.''] \<and>
   isLoading (fst (fetchEthPrice_settle toString toast_throws res st')) = False"
  by (cases res) (simp_all add: fetchEthPrice_def fetchEthPrice_start_def fetchEthPrice_settle_def)

end
